theory Spec2Isabelle
  imports Main "HOL-Library.Sublist"
begin

section \<open>The line locator of tcex-util\<close>

text \<open>
  The two locators \<open>find_line_in_code\<close> and \<open>find_line_number\<close> are static methods of
  \<open>Util\<close> (src/util.py) and of \<open>CodeOperation\<close> (src/code_operation.py). The bodies in the
  two classes are the same statement for statement, so each locator is embedded once.

  Python strings are lists of characters; a \<open>char\<close> stands for a code point below 256.
\<close>

subsection \<open>Python string operations used by the locators\<close>

text \<open>
  \<open>str.isspace\<close> on one character, for code points below 256: tab, line feed, vertical
  tab, form feed, carriage return, the separators 0x1C to 0x1F, space, NEL (0x85) and
  the no-break space (0xA0).
\<close>

definition isspace :: "char \<Rightarrow> bool" where
  "isspace c =
     (let n = (of_char c :: nat)
      in (9 \<le> n \<and> n \<le> 13) \<or> (28 \<le> n \<and> n \<le> 32) \<or> n = 133 \<or> n = 160)"

text \<open>\<open>line.lstrip()\<close>, \<open>line.rstrip()\<close> and \<open>line.strip()\<close> with no argument.\<close>

definition lstrip :: "string \<Rightarrow> string" where
  "lstrip s = dropWhile isspace s"

definition rstrip :: "string \<Rightarrow> string" where
  "rstrip s = rev (dropWhile isspace (rev s))"

definition strip :: "string \<Rightarrow> string" where
  "strip s = rstrip (lstrip s)"

text \<open>
  \<open>s.split('\n')\<close>: the pieces between line feeds. The result is never empty: the empty
  string splits into one empty piece, and a trailing line feed gives a last empty piece.
\<close>

fun split_nl :: "string \<Rightarrow> string list" where
  "split_nl [] = [[]]"
| "split_nl (c # cs) =
     (if c = CHR 0x0A then [] # split_nl cs
      else (case split_nl cs of [] \<Rightarrow> [[c]] | l # ls \<Rightarrow> (c # l) # ls))"

subsection \<open>Patterns and the regular-expression engine\<close>

text \<open>
  A pattern argument is a plain string or a compiled \<open>re.Pattern\<close> (kept with the text it
  was compiled from). Python's truth value of a string is "not empty"; a compiled
  pattern object is always true.
\<close>

datatype pattern = Str string | Compiled string

fun truthy :: "pattern \<Rightarrow> bool" where
  "truthy (Str s) = (s \<noteq> [])"
| "truthy (Compiled s) = True"

text \<open>
  \<open>re.match\<close> belongs to the standard library, not to this repository: it is a parameter
  of the embedding, a predicate telling whether the pattern matches at the start of the
  line (the truth value of the match object).
\<close>

type_synonym matcher = "pattern \<Rightarrow> string \<Rightarrow> bool"

text \<open>\<open>p is not None and re.match(p, line)\<close>, for an optional trigger \<open>p\<close>.\<close>

definition supplied_and_matches :: "matcher \<Rightarrow> pattern option \<Rightarrow> string \<Rightarrow> bool" where
  "supplied_and_matches re_match p line =
     (case p of None \<Rightarrow> False | Some q \<Rightarrow> re_match q line)"

text \<open>\<open>magnet_on = not trigger_start\<close>: true for \<open>None\<close> and for the empty string.\<close>

definition magnet_init :: "pattern option \<Rightarrow> bool" where
  "magnet_init trigger_start =
     (case trigger_start of None \<Rightarrow> True | Some p \<Rightarrow> \<not> truthy p)"

subsection \<open>The scan loop\<close>

text \<open>
  One pass through the body of the \<open>for\<close> loop ends in one of three ways: the next
  iteration is entered with a value of \<open>magnet_on\<close> (by \<open>continue\<close> or by reaching the end
  of the body), the function returns a result, or the loop is left by \<open>break\<close>.
\<close>

datatype 'r control = Continue bool | Return 'r | Break

text \<open>
  The loop over the items, threading \<open>magnet_on\<close>. Both \<open>break\<close> and the exhausted
  iterator reach the final \<open>return None\<close>.
\<close>

fun for_loop :: "(bool \<Rightarrow> 'x \<Rightarrow> 'r control) \<Rightarrow> bool \<Rightarrow> 'x list \<Rightarrow> 'r option" where
  "for_loop body magnet_on [] = None"
| "for_loop body magnet_on (x # xs) =
     (case body magnet_on x of
        Continue g \<Rightarrow> for_loop body g xs
      | Return r \<Rightarrow> Some r
      | Break \<Rightarrow> None)"

subsection \<open>find_line_number\<close>

text \<open>The loop body of \<open>find_line_number\<close> on the item \<open>(line_number, line)\<close>.\<close>

definition number_body ::
  "matcher \<Rightarrow> pattern \<Rightarrow> pattern option \<Rightarrow> pattern option \<Rightarrow> bool \<Rightarrow> nat \<times> string \<Rightarrow> nat control"
where
  "number_body re_match needle trigger_start trigger_stop magnet_on item =
     (case item of (line_number, line) \<Rightarrow>
        if strip line \<noteq> [] then
          if supplied_and_matches re_match trigger_start line then Continue True
          else if magnet_on \<and> re_match needle line then Return line_number
          else if supplied_and_matches re_match trigger_stop line \<and> magnet_on then Break
          else Continue magnet_on
        else Continue magnet_on)"

definition find_line_number ::
  "matcher \<Rightarrow> pattern \<Rightarrow> string \<Rightarrow> pattern option \<Rightarrow> pattern option \<Rightarrow> nat option"
where
  "find_line_number re_match needle contents trigger_start trigger_stop =
     for_loop (number_body re_match needle trigger_start trigger_stop)
       (magnet_init trigger_start) (enumerate 1 (split_nl contents))"

subsection \<open>find_line_in_code\<close>

text \<open>
  \<open>astunparse.unparse(ast.parse(code))\<close> is the work of the standard library and of a
  third-party package: it is a parameter of the embedding, a function that either raises
  or gives the normalised text.
\<close>

datatype error = SyntaxError | ValueError

type_synonym normaliser = "string \<Rightarrow> error + string"

text \<open>\<open>line.lstrip()[:1] not in ("'", '"')\<close>.\<close>

definition not_quoted :: "string \<Rightarrow> bool" where
  "not_quoted line = (take 1 (lstrip line) \<notin> set [[CHR 0x27], [CHR 0x22]])"

text \<open>The loop body of \<open>find_line_in_code\<close> on a line of the normalised text.\<close>

definition code_body ::
  "matcher \<Rightarrow> pattern \<Rightarrow> pattern option \<Rightarrow> pattern option \<Rightarrow> bool \<Rightarrow> string \<Rightarrow> string control"
where
  "code_body re_match needle trigger_start trigger_stop magnet_on line =
     (if not_quoted line then
        if supplied_and_matches re_match trigger_start line then Continue True
        else if magnet_on \<and> re_match needle line then Return (strip line)
        else if supplied_and_matches re_match trigger_stop line \<and> magnet_on then Break
        else Continue magnet_on
      else Continue magnet_on)"

definition find_line_in_code ::
  "normaliser \<Rightarrow> matcher \<Rightarrow> pattern \<Rightarrow> string \<Rightarrow> pattern option \<Rightarrow> pattern option
     \<Rightarrow> error + string option"
where
  "find_line_in_code unparse_parse re_match needle code trigger_start trigger_stop =
     (case unparse_parse code of
        Inl e \<Rightarrow> Inl e
      | Inr text \<Rightarrow>
          Inr (for_loop (code_body re_match needle trigger_start trigger_stop)
                 (magnet_init trigger_start) (split_nl text)))"

subsection \<open>Sample collaborators\<close>

text \<open>
  A pattern made of ordinary characters only (no regular-expression operator) matches a
  line exactly when the line starts with the pattern's text. The examples below use
  such patterns, and this matcher for them.
\<close>

fun pattern_text :: "pattern \<Rightarrow> string" where
  "pattern_text (Str s) = s"
| "pattern_text (Compiled s) = s"

definition literal_match :: matcher where
  "literal_match p line = prefix (pattern_text p) line"

text \<open>
  A stand-in for the parse and unparse collaborator on the code texts of the examples:
  the assignment "x = 1" comes back as one statement line between two line feeds, the
  conditional "if x:" with the indented body "y = 1" comes back with its two lines
  between two line feeds, the same conditional after the assignment "x = 0" comes back
  with its three lines between two line feeds, and the text "def (" is not parseable.
\<close>

definition sample_unparse :: normaliser where
  "sample_unparse code =
     (if code = ''x = 1'' then Inr ''\<newline>x = 1\<newline>''
      else if code = ''if x:\<newline>    y = 1'' then Inr ''\<newline>if x:\<newline>    y = 1\<newline>''
      else if code = ''x = 0\<newline>if x:\<newline>    y = 1''
        then Inr ''\<newline>x = 0\<newline>if x:\<newline>    y = 1\<newline>''
      else Inl SyntaxError)"

subsection \<open>The gate along the scan\<close>

text \<open>
  The value of \<open>magnet_on\<close> with which the loop comes out of a run of items, when it
  goes through all of them; \<open>None\<close> when it returns or breaks on one of them. This
  tells, for a line of the text, whether the scan reaches the line and with which gate.
\<close>

fun gate_after :: "(bool \<Rightarrow> 'x \<Rightarrow> 'r control) \<Rightarrow> bool \<Rightarrow> 'x list \<Rightarrow> bool option" where
  "gate_after body magnet_on [] = Some magnet_on"
| "gate_after body magnet_on (x # xs) =
     (case body magnet_on x of
        Continue g \<Rightarrow> gate_after body g xs
      | Return r \<Rightarrow> None
      | Break \<Rightarrow> None)"

section \<open>Properties of the loop and of the two bodies\<close>

lemma for_loop_append:
  "gate_after body g pre = Some g' \<Longrightarrow> for_loop body g (pre @ rest) = for_loop body g' rest"
  by (induction pre arbitrary: g) (auto split: control.splits)

lemma gate_after_armed:
  assumes "\<And>x. body True x \<noteq> Continue False"
  shows "gate_after body True xs = Some g' \<Longrightarrow> g'"
proof (induction xs)
  case Nil then show ?case by simp
next
  case (Cons x xs)
  then show ?case using assms[of x] by (auto split: control.splits)
qed

lemma split_nl_not_Nil: "split_nl s \<noteq> []"
  by (induction s) (auto split: list.splits)

lemma number_body_armed: "number_body m nd ts te True item \<noteq> Continue False"
  by (simp add: number_body_def split: prod.splits)

lemma code_body_armed: "code_body m nd ts te True line \<noteq> Continue False"
  by (simp add: code_body_def)

lemma number_body_Break:
  "number_body m nd ts te g item = Break \<Longrightarrow> g \<and> supplied_and_matches m te (snd item)"
  by (auto simp add: number_body_def split: prod.splits if_splits)

lemma code_body_Break:
  "code_body m nd ts te g line = Break \<Longrightarrow> g \<and> supplied_and_matches m te line"
  by (auto simp add: code_body_def split: if_splits)

lemma number_body_Return:
  "number_body m nd ts te g item = Return r \<Longrightarrow>
     g \<and> r = fst item \<and> strip (snd item) \<noteq> [] \<and> m nd (snd item)
     \<and> \<not> supplied_and_matches m ts (snd item)"
  by (auto simp add: number_body_def split: prod.splits if_splits)

lemma code_body_Return:
  "code_body m nd ts te g line = Return r \<Longrightarrow>
     g \<and> r = strip line \<and> not_quoted line \<and> m nd line
     \<and> \<not> supplied_and_matches m ts line"
  by (auto simp add: code_body_def split: if_splits)

lemma for_loop_Some:
  "for_loop body g xs = Some r \<Longrightarrow>
     \<exists>pre x post g'. xs = pre @ x # post \<and> gate_after body g pre = Some g' \<and> body g' x = Return r"
proof (induction xs arbitrary: g)
  case Nil then show ?case by simp
next
  case (Cons x xs)
  show ?case
  proof (cases "body g x")
    case (Continue h)
    with Cons.prems have "for_loop body h xs = Some r" by simp
    from Cons.IH[OF this] obtain pre y post g' where
      "xs = pre @ y # post" "gate_after body h pre = Some g'" "body g' y = Return r" by blast
    then have "x # xs = (x # pre) @ y # post \<and> gate_after body g (x # pre) = Some g' \<and> body g' y = Return r"
      using Continue by simp
    then show ?thesis by blast
  next
    case (Return r')
    with Cons.prems have "r' = r" by simp
    then have "x # xs = [] @ x # xs \<and> gate_after body g [] = Some g \<and> body g x = Return r"
      using Return by simp
    then show ?thesis by blast
  next
    case Break
    with Cons.prems show ?thesis by simp
  qed
qed

lemma for_loop_Return:
  "gate_after body g pre = Some g' \<Longrightarrow> body g' x = Return r \<Longrightarrow> for_loop body g (pre @ x # post) = Some r"
  by (simp add: for_loop_append)

lemma for_loop_Break:
  "gate_after body g pre = Some g' \<Longrightarrow> body g' x = Break \<Longrightarrow> for_loop body g (pre @ x # post) = None"
  by (simp add: for_loop_append)

lemma enumerate_decomp:
  "enumerate k (pre @ l # post) = enumerate k pre @ (k + length pre, l) # enumerate (Suc (k + length pre)) post"
  by (simp add: enumerate_append_eq)


lemma number_loop_Some:
  "for_loop (number_body m nd ts te) g (enumerate k lines) = Some n \<Longrightarrow>
     \<exists>pre l post g'. lines = pre @ l # post \<and> n = k + length pre
       \<and> gate_after (number_body m nd ts te) g (enumerate k pre) = Some g'
       \<and> number_body m nd ts te g' (n, l) = Return n"
proof (induction lines arbitrary: g k)
  case Nil then show ?case by simp
next
  case (Cons x xs)
  let ?b = "number_body m nd ts te"
  show ?case
  proof (cases "?b g (k, x)")
    case (Continue h)
    with Cons.prems have "for_loop ?b h (enumerate (Suc k) xs) = Some n" by simp
    from Cons.IH[OF this] obtain pre l post g' where
      *: "xs = pre @ l # post" "n = Suc k + length pre"
         "gate_after ?b h (enumerate (Suc k) pre) = Some g'" "?b g' (n, l) = Return n" by blast
    then have "x # xs = (x # pre) @ l # post \<and> n = k + length (x # pre)
        \<and> gate_after ?b g (enumerate k (x # pre)) = Some g' \<and> ?b g' (n, l) = Return n"
      using Continue by simp
    then show ?thesis by blast
  next
    case (Return r)
    with Cons.prems have rn: "r = n" by simp
    with Return have "n = k" by (auto dest: number_body_Return)
    with Return rn have "x # xs = [] @ x # xs \<and> n = k + length ([]::string list)
        \<and> gate_after ?b g (enumerate k []) = Some g \<and> ?b g (n, x) = Return n"
      by simp
    then show ?thesis by blast
  next
    case Break
    with Cons.prems show ?thesis by simp
  qed
qed

lemma find_line_number_Some:
  assumes "find_line_number m nd contents ts te = Some n"
  shows "\<exists>pre l post g'. split_nl contents = pre @ l # post \<and> n = Suc (length pre)
       \<and> gate_after (number_body m nd ts te) (magnet_init ts) (enumerate 1 pre) = Some g'
       \<and> number_body m nd ts te g' (n, l) = Return n"
  using number_loop_Some[of m nd ts te "magnet_init ts" 1 "split_nl contents" n] assms
  by (simp add: find_line_number_def)

section \<open>Line numbers\<close>





section \<open>The gate\<close>

text \<open>
  Claim C1, as stated, at the empty string: a trigger_start that is supplied as the empty
  string leaves the gate armed from the start, since \<open>not ''\<close> is true.
\<close>

theorem magnet_on_initial_counterexample:
  "\<not> (magnet_init (Some (Str '''')) \<longleftrightarrow> Some (Str '''') = (None :: pattern option))"
  by (simp add: magnet_init_def)

text \<open>
  Claim C1, amended. The gate starts armed exactly when trigger_start is \<open>None\<close> or the
  empty string. In both locators an armed gate is never disarmed by the loop body, so a
  scan that starts armed, or has become armed, comes out of any run of lines armed. The
  loop is left by \<open>break\<close> only with the gate armed and on a line matching the supplied
  trigger_stop, and the function then returns \<open>None\<close> whatever follows.
\<close>

theorem magnet_on_invariant:
  "(magnet_init ts \<longleftrightarrow> ts = None \<or> ts = Some (Str ''''))
   \<and> number_body m nd ts te True item \<noteq> Continue False
   \<and> code_body m nd ts te True line \<noteq> Continue False
   \<and> (gate_after (number_body m nd ts te) True items = Some g \<longrightarrow> g)
   \<and> (gate_after (code_body m nd ts te) True lines = Some g \<longrightarrow> g)
   \<and> (number_body m nd ts te h item = Break \<longrightarrow>
        h \<and> supplied_and_matches m te (snd item)
        \<and> for_loop (number_body m nd ts te) h (item # items) = None)
   \<and> (code_body m nd ts te h line = Break \<longrightarrow>
        h \<and> supplied_and_matches m te line
        \<and> for_loop (code_body m nd ts te) h (line # lines) = None)"
proof (intro conjI impI)
  show "magnet_init ts \<longleftrightarrow> ts = None \<or> ts = Some (Str '''')"
  proof (cases ts)
    case None then show ?thesis by (simp add: magnet_init_def)
  next
    case (Some p) then show ?thesis by (cases p) (simp_all add: magnet_init_def)
  qed
next
  show "number_body m nd ts te True item \<noteq> Continue False" by (rule number_body_armed)
next
  show "code_body m nd ts te True line \<noteq> Continue False" by (rule code_body_armed)
next
  assume "gate_after (number_body m nd ts te) True items = Some g"
  then show g using gate_after_armed[of "number_body m nd ts te" items g] number_body_armed by blast
next
  assume "gate_after (code_body m nd ts te) True lines = Some g"
  then show g using gate_after_armed[of "code_body m nd ts te" lines g] code_body_armed by blast
next
  assume b: "number_body m nd ts te h item = Break"
  then show h "supplied_and_matches m te (snd item)" by (auto dest: number_body_Break)
  from b show "for_loop (number_body m nd ts te) h (item # items) = None" by simp
next
  assume b: "code_body m nd ts te h line = Break"
  then show h "supplied_and_matches m te line" by (auto dest: code_body_Break)
  from b show "for_loop (code_body m nd ts te) h (line # lines) = None" by simp
qed

theorem magnet_on_invariant_witness:
  "magnet_init None
   \<and> \<not> magnet_init (Some (Str ''class X''))
   \<and> gate_after (number_body literal_match (Str ''def y'') (Some (Str ''class X'')) (Some (Str ''class '')))
        True [(2, ''    x = 1'')] = Some True
   \<and> number_body literal_match (Str ''def y'') (Some (Str ''class X'')) (Some (Str ''class ''))
        True (3, ''class Z'') = Break
   \<and> for_loop (number_body literal_match (Str ''def y'') (Some (Str ''class X'')) (Some (Str ''class '')))
        True [(3, ''class Z''), (4, ''def y'')] = None"
proof -
  let ?b = "number_body literal_match (Str ''def y'') (Some (Str ''class X'')) (Some (Str ''class ''))"
  have g: "gate_after ?b True [(2, ''    x = 1'')] = Some True"
    by (simp add: number_body_def literal_match_def supplied_and_matches_def
        strip_def lstrip_def rstrip_def isspace_def)
  have b: "?b True (3, ''class Z'') = Break"
    by (simp add: number_body_def literal_match_def supplied_and_matches_def
        strip_def lstrip_def rstrip_def isspace_def)
  from magnet_on_invariant[of None literal_match "Str ''def y''" "Some (Str ''class '')" "(3, ''class Z'')" "[]" "[]" True "[]" True]
    magnet_on_invariant[of "Some (Str ''class X'')" literal_match "Str ''def y''" "Some (Str ''class '')" "(3, ''class Z'')"
       "''''" "[(4, ''def y'')]" True "[]" True] g b
  show ?thesis by simp
qed

section \<open>The line that matches trigger_start\<close>

lemma code_loop_Some:
  "for_loop (code_body m nd ts te) g lines = Some r \<Longrightarrow>
     \<exists>pre l post g'. lines = pre @ l # post
       \<and> gate_after (code_body m nd ts te) g pre = Some g'
       \<and> code_body m nd ts te g' l = Return r"
  by (rule for_loop_Some)

text \<open>
  Claim C4. On a line that matches the supplied trigger_start, the body of either locator
  goes on to the next line, whatever the gate: it neither returns nor breaks. The line
  whose number \<open>find_line_number\<close> returns does not match trigger_start, and the text
  \<open>find_line_in_code\<close> returns is the stripped form of a line reached with the gate armed
  that does not match trigger_start.
\<close>

theorem trigger_start_line_consumed:
  "(supplied_and_matches m ts line \<longrightarrow>
      (\<exists>g'. number_body m nd ts te g (n, line) = Continue g')
      \<and> (\<exists>g'. code_body m nd ts te g line = Continue g'))
   \<and> (find_line_number m nd contents ts te = Some k \<longrightarrow>
        \<not> supplied_and_matches m ts (split_nl contents ! (k - 1)))
   \<and> (unparse_parse code = Inr text
        \<and> find_line_in_code unparse_parse m nd code ts te = Inr (Some r) \<longrightarrow>
        (\<exists>pre l post. split_nl text = pre @ l # post
           \<and> gate_after (code_body m nd ts te) (magnet_init ts) pre = Some True
           \<and> code_body m nd ts te True l = Return r
           \<and> r = strip l \<and> \<not> supplied_and_matches m ts l))"
proof (intro conjI impI)
  assume "supplied_and_matches m ts line"
  then show "\<exists>g'. number_body m nd ts te g (n, line) = Continue g'"
    "\<exists>g'. code_body m nd ts te g line = Continue g'"
    by (auto simp add: number_body_def code_body_def)
next
  assume "find_line_number m nd contents ts te = Some k"
  from find_line_number_Some[OF this] obtain pre l post g' where
    *: "split_nl contents = pre @ l # post" "k = Suc (length pre)"
       "number_body m nd ts te g' (k, l) = Return k" by blast
  from *(3) have "\<not> supplied_and_matches m ts l" by (auto dest: number_body_Return)
  with *(1,2) show "\<not> supplied_and_matches m ts (split_nl contents ! (k - 1))" by simp
next
  assume a: "unparse_parse code = Inr text
        \<and> find_line_in_code unparse_parse m nd code ts te = Inr (Some r)"
  then have "for_loop (code_body m nd ts te) (magnet_init ts) (split_nl text) = Some r"
    by (auto simp add: find_line_in_code_def)
  from code_loop_Some[OF this] obtain pre l post g' where
    *: "split_nl text = pre @ l # post"
       "gate_after (code_body m nd ts te) (magnet_init ts) pre = Some g'"
       "code_body m nd ts te g' l = Return r" by blast
  from *(3) have "g' \<and> r = strip l \<and> \<not> supplied_and_matches m ts l"
    by (auto dest: code_body_Return)
  with * have "split_nl text = pre @ l # post
           \<and> gate_after (code_body m nd ts te) (magnet_init ts) pre = Some True
           \<and> code_body m nd ts te True l = Return r
           \<and> r = strip l \<and> \<not> supplied_and_matches m ts l" by simp
  then show "\<exists>pre l post. split_nl text = pre @ l # post
           \<and> gate_after (code_body m nd ts te) (magnet_init ts) pre = Some True
           \<and> code_body m nd ts te True l = Return r
           \<and> r = strip l \<and> \<not> supplied_and_matches m ts l" by blast
qed

theorem trigger_start_line_consumed_witness:
  "supplied_and_matches literal_match (Some (Str ''class X'')) ''class X:''
   \<and> number_body literal_match (Str ''class'') (Some (Str ''class X'')) (Some (Str ''class '')) True (1, ''class X:'')
       = Continue True
   \<and> code_body literal_match (Str ''class'') (Some (Str ''class X'')) (Some (Str ''class '')) True ''class X:''
       = Continue True
   \<and> find_line_number literal_match (Str ''class'') ''class X:\<newline>class Xy:\<newline>class Z:''
        (Some (Str ''class X'')) None = Some 3
   \<and> \<not> supplied_and_matches literal_match (Some (Str ''class X'')) ''class Z:''"
proof -
  have a: "supplied_and_matches literal_match (Some (Str ''class X'')) ''class X:''"
    by (simp add: supplied_and_matches_def literal_match_def)
  have b: "find_line_number literal_match (Str ''class'') ''class X:\<newline>class Xy:\<newline>class Z:''
        (Some (Str ''class X'')) None = Some 3"
    by (simp add: find_line_number_def number_body_def enumerate_eq_zip magnet_init_def
        literal_match_def strip_def lstrip_def rstrip_def isspace_def supplied_and_matches_def)
  from trigger_start_line_consumed[of literal_match "Some (Str ''class X'')" "''class X:''"
      "Str ''class''" "Some (Str ''class '')" True 1]
    trigger_start_line_consumed[of literal_match "Some (Str ''class X'')" "''class X:''"
      "Str ''class''" None True 1 "''class X:\<newline>class Xy:\<newline>class Z:''" 3] a b
  show ?thesis
    by (simp add: number_body_def code_body_def not_quoted_def lstrip_def isspace_def
        strip_def rstrip_def)
qed

section \<open>The stop trigger before the gate is armed\<close>

lemma number_body_disarmed:
  "number_body m nd ts te False (n, line) =
     Continue (strip line \<noteq> [] \<and> supplied_and_matches m ts line)"
  by (simp add: number_body_def)

lemma code_body_disarmed:
  "code_body m nd ts te False line =
     Continue (not_quoted line \<and> supplied_and_matches m ts line)"
  by (simp add: code_body_def)

text \<open>
  Claim C5. With the gate disarmed the body of either locator always goes on to the next
  line. When the scan reaches a line matching trigger_stop with the gate disarmed, the
  result of the locator is the result of the scan of the lines after it (armed for them
  only if this line also matched trigger_start). When, among those later lines, the scan
  reaches with the gate armed a line that is not skipped, that does not match
  trigger_start and that matches the needle, that line is returned: its 1-based number by
  \<open>find_line_number\<close>, its stripped text by \<open>find_line_in_code\<close>. In the three lines "end",
  "begin", "x" with trigger_start "begin" and trigger_stop "end", the needle "x" is found
  on line 3. In the normalised text of "x = 0" followed by "if x:" with the body "y = 1",
  with trigger_start "if x" and trigger_stop "x = ", the indented line of the body is
  found and returned as "y = 1".
\<close>

theorem stop_ignored_while_disarmed:
  "(\<exists>g'. number_body m nd ts te False (n, line) = Continue g')
   \<and> (\<exists>g'. code_body m nd ts te False line = Continue g')
   \<and> (split_nl contents = pre @ l # post
        \<and> gate_after (number_body m nd ts te) (magnet_init ts) (enumerate 1 pre) = Some False
        \<and> supplied_and_matches m te l \<longrightarrow>
        find_line_number m nd contents ts te =
          for_loop (number_body m nd ts te) (strip l \<noteq> [] \<and> supplied_and_matches m ts l)
            (enumerate (length pre + 2) post))
   \<and> (unparse_parse code = Inr text \<and> split_nl text = pre @ l # post
        \<and> gate_after (code_body m nd ts te) (magnet_init ts) pre = Some False
        \<and> supplied_and_matches m te l \<longrightarrow>
        find_line_in_code unparse_parse m nd code ts te =
          Inr (for_loop (code_body m nd ts te) (not_quoted l \<and> supplied_and_matches m ts l) post))
   \<and> find_line_number literal_match (Str ''x'') ''end\<newline>begin\<newline>x''
        (Some (Str ''begin'')) (Some (Str ''end'')) = Some 3
   \<and> (split_nl contents = pre @ l # mid @ k # rest
        \<and> gate_after (number_body m nd ts te) (magnet_init ts) (enumerate 1 pre) = Some False
        \<and> supplied_and_matches m te l
        \<and> gate_after (number_body m nd ts te) (strip l \<noteq> [] \<and> supplied_and_matches m ts l)
             (enumerate (length pre + 2) mid) = Some True
        \<and> strip k \<noteq> [] \<and> \<not> supplied_and_matches m ts k \<and> m nd k \<longrightarrow>
        find_line_number m nd contents ts te = Some (length pre + length mid + 2))
   \<and> (unparse_parse code = Inr text \<and> split_nl text = pre @ l # mid @ k # rest
        \<and> gate_after (code_body m nd ts te) (magnet_init ts) pre = Some False
        \<and> supplied_and_matches m te l
        \<and> gate_after (code_body m nd ts te) (not_quoted l \<and> supplied_and_matches m ts l) mid
             = Some True
        \<and> not_quoted k \<and> \<not> supplied_and_matches m ts k \<and> m nd k \<longrightarrow>
        find_line_in_code unparse_parse m nd code ts te = Inr (Some (strip k)))
   \<and> find_line_in_code sample_unparse literal_match (Str ''    y'')
        ''x = 0\<newline>if x:\<newline>    y = 1'' (Some (Str ''if x'')) (Some (Str ''x = ''))
      = Inr (Some ''y = 1'')"
proof (intro conjI impI)
  show "\<exists>g'. number_body m nd ts te False (n, line) = Continue g'"
    by (simp add: number_body_disarmed)
  show "\<exists>g'. code_body m nd ts te False line = Continue g'"
    by (simp add: code_body_disarmed)
next
  assume a: "split_nl contents = pre @ l # post
        \<and> gate_after (number_body m nd ts te) (magnet_init ts) (enumerate 1 pre) = Some False
        \<and> supplied_and_matches m te l"
  let ?b = "number_body m nd ts te"
  have "for_loop ?b (magnet_init ts) (enumerate 1 (pre @ l # post)) =
        for_loop ?b False ((1 + length pre, l) # enumerate (Suc (1 + length pre)) post)"
    using a by (simp only: enumerate_decomp for_loop_append)
  also have "\<dots> = for_loop ?b (strip l \<noteq> [] \<and> supplied_and_matches m ts l)
            (enumerate (length pre + 2) post)"
    by (simp add: number_body_disarmed)
  finally show "find_line_number m nd contents ts te =
          for_loop ?b (strip l \<noteq> [] \<and> supplied_and_matches m ts l)
            (enumerate (length pre + 2) post)"
    using a by (simp add: find_line_number_def)
next
  assume a: "unparse_parse code = Inr text \<and> split_nl text = pre @ l # post
        \<and> gate_after (code_body m nd ts te) (magnet_init ts) pre = Some False
        \<and> supplied_and_matches m te l"
  let ?b = "code_body m nd ts te"
  have "for_loop ?b (magnet_init ts) (pre @ l # post) = for_loop ?b False (l # post)"
    using a by (simp only: for_loop_append)
  also have "\<dots> = for_loop ?b (not_quoted l \<and> supplied_and_matches m ts l) post"
    by (simp add: code_body_disarmed)
  finally show "find_line_in_code unparse_parse m nd code ts te =
          Inr (for_loop ?b (not_quoted l \<and> supplied_and_matches m ts l) post)"
    using a by (auto simp add: find_line_in_code_def)
next
  show "find_line_number literal_match (Str ''x'') ''end\<newline>begin\<newline>x''
        (Some (Str ''begin'')) (Some (Str ''end'')) = Some 3"
    by (simp add: find_line_number_def number_body_def enumerate_eq_zip magnet_init_def
        literal_match_def strip_def lstrip_def rstrip_def isspace_def supplied_and_matches_def)
next
  assume a: "split_nl contents = pre @ l # mid @ k # rest
        \<and> gate_after (number_body m nd ts te) (magnet_init ts) (enumerate 1 pre) = Some False
        \<and> supplied_and_matches m te l
        \<and> gate_after (number_body m nd ts te) (strip l \<noteq> [] \<and> supplied_and_matches m ts l)
             (enumerate (length pre + 2) mid) = Some True
        \<and> strip k \<noteq> [] \<and> \<not> supplied_and_matches m ts k \<and> m nd k"
  let ?b = "number_body m nd ts te"
  let ?g = "strip l \<noteq> [] \<and> supplied_and_matches m ts l"
  from a have g1: "gate_after ?b (magnet_init ts) (enumerate 1 pre) = Some False" by blast
  from a have g2: "gate_after ?b ?g (enumerate (length pre + 2) mid) = Some True" by blast
  from a have r: "?b True (length pre + 2 + length mid, k) = Return (length pre + length mid + 2)"
    by (simp add: number_body_def)
  have "for_loop ?b (magnet_init ts) (enumerate 1 (pre @ l # mid @ k # rest)) =
        for_loop ?b False ((1 + length pre, l) # enumerate (Suc (1 + length pre)) (mid @ k # rest))"
    using g1 by (simp only: enumerate_decomp for_loop_append)
  also have "\<dots> = for_loop ?b ?g (enumerate (length pre + 2) (mid @ k # rest))"
    by (simp add: number_body_disarmed)
  also have "\<dots> = Some (length pre + length mid + 2)"
    by (simp only: enumerate_decomp for_loop_Return[OF g2 r])
  finally show "find_line_number m nd contents ts te = Some (length pre + length mid + 2)"
    using a by (simp add: find_line_number_def)
next
  assume a: "unparse_parse code = Inr text \<and> split_nl text = pre @ l # mid @ k # rest
        \<and> gate_after (code_body m nd ts te) (magnet_init ts) pre = Some False
        \<and> supplied_and_matches m te l
        \<and> gate_after (code_body m nd ts te) (not_quoted l \<and> supplied_and_matches m ts l) mid
             = Some True
        \<and> not_quoted k \<and> \<not> supplied_and_matches m ts k \<and> m nd k"
  let ?b = "code_body m nd ts te"
  let ?g = "not_quoted l \<and> supplied_and_matches m ts l"
  from a have g1: "gate_after ?b (magnet_init ts) pre = Some False" by blast
  from a have g2: "gate_after ?b ?g mid = Some True" by blast
  from a have r: "?b True k = Return (strip k)" by (simp add: code_body_def)
  have "for_loop ?b (magnet_init ts) (pre @ l # mid @ k # rest) =
        for_loop ?b False (l # mid @ k # rest)"
    using g1 by (simp only: for_loop_append)
  also have "\<dots> = for_loop ?b ?g (mid @ k # rest)"
    by (simp add: code_body_disarmed)
  also have "\<dots> = Some (strip k)" by (rule for_loop_Return[OF g2 r])
  finally show "find_line_in_code unparse_parse m nd code ts te = Inr (Some (strip k))"
    using a by (auto simp add: find_line_in_code_def)
next
  show "find_line_in_code sample_unparse literal_match (Str ''    y'')
        ''x = 0\<newline>if x:\<newline>    y = 1'' (Some (Str ''if x'')) (Some (Str ''x = ''))
      = Inr (Some ''y = 1'')"
    by (simp add: find_line_in_code_def sample_unparse_def code_body_def magnet_init_def
      literal_match_def not_quoted_def strip_def lstrip_def rstrip_def isspace_def
      supplied_and_matches_def)
qed

theorem stop_ignored_while_disarmed_witness:
  "split_nl ''end\<newline>begin\<newline>x'' = [] @ ''end'' # [''begin'', ''x'']
   \<and> gate_after (number_body literal_match (Str ''x'') (Some (Str ''begin'')) (Some (Str ''end'')))
        (magnet_init (Some (Str ''begin''))) (enumerate 1 []) = Some False
   \<and> supplied_and_matches literal_match (Some (Str ''end'')) ''end''
   \<and> find_line_number literal_match (Str ''x'') ''end\<newline>begin\<newline>x''
        (Some (Str ''begin'')) (Some (Str ''end''))
      = for_loop (number_body literal_match (Str ''x'') (Some (Str ''begin'')) (Some (Str ''end'')))
          (strip ''end'' \<noteq> [] \<and> supplied_and_matches literal_match (Some (Str ''begin'')) ''end'')
          (enumerate (length ([] :: string list) + 2) [''begin'', ''x''])
   \<and> find_line_number literal_match (Str ''x'') ''end\<newline>begin\<newline>x''
        (Some (Str ''begin'')) (Some (Str ''end'')) = Some 3
   \<and> sample_unparse ''x = 0\<newline>if x:\<newline>    y = 1'' = Inr ''\<newline>x = 0\<newline>if x:\<newline>    y = 1\<newline>''
   \<and> split_nl ''\<newline>x = 0\<newline>if x:\<newline>    y = 1\<newline>''
        = [[]] @ ''x = 0'' # [''if x:''] @ ''    y = 1'' # [[]]
   \<and> gate_after (code_body literal_match (Str ''    y'') (Some (Str ''if x'')) (Some (Str ''x = '')))
        (magnet_init (Some (Str ''if x''))) [[]] = Some False
   \<and> supplied_and_matches literal_match (Some (Str ''x = '')) ''x = 0''
   \<and> gate_after (code_body literal_match (Str ''    y'') (Some (Str ''if x'')) (Some (Str ''x = '')))
        (not_quoted ''x = 0'' \<and> supplied_and_matches literal_match (Some (Str ''if x'')) ''x = 0'')
        [''if x:''] = Some True
   \<and> not_quoted ''    y = 1''
   \<and> \<not> supplied_and_matches literal_match (Some (Str ''if x'')) ''    y = 1''
   \<and> literal_match (Str ''    y'') ''    y = 1''
   \<and> find_line_in_code sample_unparse literal_match (Str ''    y'')
        ''x = 0\<newline>if x:\<newline>    y = 1'' (Some (Str ''if x'')) (Some (Str ''x = ''))
      = Inr (Some (strip ''    y = 1''))
   \<and> strip ''    y = 1'' = ''y = 1''"
proof -
  let ?b = "number_body literal_match (Str ''x'') (Some (Str ''begin'')) (Some (Str ''end''))"
  let ?c = "code_body literal_match (Str ''    y'') (Some (Str ''if x'')) (Some (Str ''x = ''))"
  have s: "split_nl ''end\<newline>begin\<newline>x'' = [] @ ''end'' # [''begin'', ''x'']" by simp
  have g: "gate_after ?b (magnet_init (Some (Str ''begin''))) (enumerate 1 []) = Some False"
    by (simp add: magnet_init_def)
  have t: "supplied_and_matches literal_match (Some (Str ''end'')) ''end''"
    by (simp add: supplied_and_matches_def literal_match_def)
  note th = stop_ignored_while_disarmed[of literal_match "Str ''x''" "Some (Str ''begin'')"
      "Some (Str ''end'')" 1 "''end''" "''end\<newline>begin\<newline>x''" "[]" "''end''" "[''begin'', ''x'']"]
  from th s g t have 1:
    "find_line_number literal_match (Str ''x'') ''end\<newline>begin\<newline>x''
        (Some (Str ''begin'')) (Some (Str ''end''))
      = for_loop ?b
          (strip ''end'' \<noteq> [] \<and> supplied_and_matches literal_match (Some (Str ''begin'')) ''end'')
          (enumerate (length ([] :: string list) + 2) [''begin'', ''x''])"
    by blast
  from th have 2: "find_line_number literal_match (Str ''x'') ''end\<newline>begin\<newline>x''
        (Some (Str ''begin'')) (Some (Str ''end'')) = Some 3" by blast
  have u: "sample_unparse ''x = 0\<newline>if x:\<newline>    y = 1'' = Inr ''\<newline>x = 0\<newline>if x:\<newline>    y = 1\<newline>''"
    by (simp add: sample_unparse_def)
  have cs: "split_nl ''\<newline>x = 0\<newline>if x:\<newline>    y = 1\<newline>''
        = [[]] @ ''x = 0'' # [''if x:''] @ ''    y = 1'' # [[]]" by simp
  have cg1: "gate_after ?c (magnet_init (Some (Str ''if x''))) [[]] = Some False"
    by (simp add: code_body_def magnet_init_def literal_match_def not_quoted_def lstrip_def
      supplied_and_matches_def)
  have ct: "supplied_and_matches literal_match (Some (Str ''x = '')) ''x = 0''"
    by (simp add: supplied_and_matches_def literal_match_def)
  have cg2: "gate_after ?c
        (not_quoted ''x = 0'' \<and> supplied_and_matches literal_match (Some (Str ''if x'')) ''x = 0'')
        [''if x:''] = Some True"
    by (simp add: code_body_def literal_match_def not_quoted_def lstrip_def isspace_def
      supplied_and_matches_def)
  have cn: "not_quoted ''    y = 1''" by (simp add: not_quoted_def lstrip_def isspace_def)
  have cts: "\<not> supplied_and_matches literal_match (Some (Str ''if x'')) ''    y = 1''"
    by (simp add: supplied_and_matches_def literal_match_def)
  have cm: "literal_match (Str ''    y'') ''    y = 1''" by (simp add: literal_match_def)
  have st: "strip ''    y = 1'' = ''y = 1''"
    by (simp add: strip_def lstrip_def rstrip_def isspace_def)
  note thc = stop_ignored_while_disarmed[of literal_match "Str ''    y''" "Some (Str ''if x'')"
      "Some (Str ''x = '')" 1 "[]" "[]" "[[]]" "''x = 0''" "[]" sample_unparse
      "''x = 0\<newline>if x:\<newline>    y = 1''" "''\<newline>x = 0\<newline>if x:\<newline>    y = 1\<newline>''"
      "[''if x:'']" "''    y = 1''" "[[]]"]
  from thc u cs cg1 ct cg2 cn cts cm have 3:
    "find_line_in_code sample_unparse literal_match (Str ''    y'')
        ''x = 0\<newline>if x:\<newline>    y = 1'' (Some (Str ''if x'')) (Some (Str ''x = ''))
      = Inr (Some (strip ''    y = 1''))"
    by blast
  from s g t 1 2 u cs cg1 ct cg2 cn cts cm 3 st show ?thesis by blast
qed

section \<open>Unparseable code\<close>

text \<open>
  Claim C8. When parsing and unparsing the code raises, \<open>find_line_in_code\<close> raises the
  same error; the result is not \<open>None\<close>.
\<close>

theorem parse_failure_propagates:
  "unparse_parse code = Inl e \<Longrightarrow>
     find_line_in_code unparse_parse m nd code ts te = Inl e
     \<and> find_line_in_code unparse_parse m nd code ts te \<noteq> Inr None"
  by (simp add: find_line_in_code_def)

theorem parse_failure_propagates_witness:
  "sample_unparse ''def ('' = Inl SyntaxError
   \<and> find_line_in_code sample_unparse literal_match (Str ''x'') ''def ('' None None = Inl SyntaxError"
proof -
  have h: "sample_unparse ''def ('' = Inl SyntaxError" by (simp add: sample_unparse_def)
  from parse_failure_propagates[of sample_unparse "''def (''" SyntaxError literal_match "Str ''x''" None None, OF h] h
  show ?thesis by simp
qed

section \<open>A trigger_start that never matches\<close>

lemma number_loop_never_armed:
  "\<forall>l \<in> set lines. \<not> m p l \<Longrightarrow>
     for_loop (number_body m nd (Some p) te) False (enumerate k lines) = None"
  by (induction lines arbitrary: k)
     (simp_all add: number_body_disarmed supplied_and_matches_def)

lemma code_loop_never_armed:
  "\<forall>l \<in> set lines. \<not> m p l \<Longrightarrow>
     for_loop (code_body m nd (Some p) te) False lines = None"
  by (induction lines) (simp_all add: code_body_disarmed supplied_and_matches_def)

lemma unmatched_start_disarmed:
  assumes e: "\<forall>line. m (Str '''') line"
    and n: "\<forall>l \<in> set (split_nl s). \<not> m p l"
  shows "\<not> magnet_init (Some p)"
proof
  assume "magnet_init (Some p)"
  then have p: "p = Str ''''" by (cases p) (simp_all add: magnet_init_def)
  obtain l ls where "split_nl s = l # ls" using split_nl_not_Nil[of s] by (cases "split_nl s") auto
  then have "l \<in> set (split_nl s)" by simp
  with n have "\<not> m p l" by blast
  with e p show False by simp
qed

text \<open>
  Claim C6. The regular-expression engine is taken to match the empty pattern at the
  start of every line, as \<open>re.match\<close> does. When trigger_start is supplied and no line
  matches it, both locators return \<open>None\<close>, whatever the needle matches (for
  \<open>find_line_in_code\<close> the lines are those of the normalised text). In the text of the four
  lines "a", "foo", "b", "bar" with trigger_start "foo" and needle "a" the result of
  \<open>find_line_number\<close> is \<open>None\<close>, for any engine that reads the two patterns as the
  characters they are made of: line 1 is passed before the gate is armed.
\<close>

theorem unmatched_trigger_start_gives_none:
  assumes "\<forall>line. m (Str '''') line"
  shows "((\<forall>l \<in> set (split_nl contents). \<not> m p l) \<longrightarrow>
       find_line_number m nd contents (Some p) te = None)
   \<and> (unparse_parse code = Inr text \<and> (\<forall>l \<in> set (split_nl text). \<not> m p l) \<longrightarrow>
       find_line_in_code unparse_parse m nd code (Some p) te = Inr None)
   \<and> ((\<forall>line. m (Str ''foo'') line = prefix ''foo'' line)
       \<and> (\<forall>line. m (Str ''a'') line = prefix ''a'' line) \<longrightarrow>
       find_line_number m (Str ''a'') ''a\<newline>foo\<newline>b\<newline>bar\<newline>'' (Some (Str ''foo'')) None = None)"
proof (intro conjI impI)
  assume n: "\<forall>l \<in> set (split_nl contents). \<not> m p l"
  from unmatched_start_disarmed[of m contents p] assms n
    number_loop_never_armed[of "split_nl contents" m p nd te 1]
  show "find_line_number m nd contents (Some p) te = None"
    by (simp add: find_line_number_def)
next
  assume a: "unparse_parse code = Inr text \<and> (\<forall>l \<in> set (split_nl text). \<not> m p l)"
  then have n: "\<forall>l \<in> set (split_nl text). \<not> m p l" by blast
  from unmatched_start_disarmed[of m "text" p] assms n
    code_loop_never_armed[of "split_nl text" m p nd te] a
  show "find_line_in_code unparse_parse m nd code (Some p) te = Inr None"
    by (auto simp add: find_line_in_code_def)
next
  assume h: "(\<forall>line. m (Str ''foo'') line = prefix ''foo'' line)
       \<and> (\<forall>line. m (Str ''a'') line = prefix ''a'' line)"
  then show "find_line_number m (Str ''a'') ''a\<newline>foo\<newline>b\<newline>bar\<newline>'' (Some (Str ''foo'')) None = None"
    by (simp add: find_line_number_def number_body_def enumerate_eq_zip magnet_init_def
        strip_def lstrip_def rstrip_def isspace_def supplied_and_matches_def)
qed

theorem unmatched_trigger_start_gives_none_witness:
  "(\<forall>line. literal_match (Str '''') line)
   \<and> list_all (\<lambda>l. \<not> literal_match (Str ''class'') l) (split_nl ''a\<newline>foo\<newline>b\<newline>bar\<newline>'')
   \<and> find_line_number literal_match (Str ''bar'') ''a\<newline>foo\<newline>b\<newline>bar\<newline>'' (Some (Str ''class'')) None = None
   \<and> literal_match (Str ''bar'') ''bar''
   \<and> sample_unparse ''x = 1'' = Inr ''\<newline>x = 1\<newline>''
   \<and> find_line_in_code sample_unparse literal_match (Str ''x'') ''x = 1'' (Some (Str ''class'')) None = Inr None
   \<and> find_line_number literal_match (Str ''a'') ''a\<newline>foo\<newline>b\<newline>bar\<newline>'' (Some (Str ''foo'')) None = None"
proof -
  have e: "\<forall>line. literal_match (Str '''') line" by (simp add: literal_match_def)
  have n: "\<forall>l \<in> set (split_nl ''a\<newline>foo\<newline>b\<newline>bar\<newline>''). \<not> literal_match (Str ''class'') l"
    by (simp add: literal_match_def)
  have u: "sample_unparse ''x = 1'' = Inr ''\<newline>x = 1\<newline>''" by (simp add: sample_unparse_def)
  have n2: "\<forall>l \<in> set (split_nl ''\<newline>x = 1\<newline>''). \<not> literal_match (Str ''class'') l"
    by (simp add: literal_match_def)
  have h: "(\<forall>line. literal_match (Str ''foo'') line = prefix ''foo'' line)
       \<and> (\<forall>line. literal_match (Str ''a'') line = prefix ''a'' line)"
    by (simp add: literal_match_def)
  have b: "literal_match (Str ''bar'') ''bar''" by (simp add: literal_match_def)
  note th1 = unmatched_trigger_start_gives_none[of literal_match "''a\<newline>foo\<newline>b\<newline>bar\<newline>''" "Str ''class''" "Str ''bar''" None
      sample_unparse "''x = 1''" "''\<newline>x = 1\<newline>''"]
  note th2 = unmatched_trigger_start_gives_none[of literal_match "''a\<newline>foo\<newline>b\<newline>bar\<newline>''" "Str ''class''" "Str ''x''" None
      sample_unparse "''x = 1''" "''\<newline>x = 1\<newline>''"]
  from th1 e n have 1: "find_line_number literal_match (Str ''bar'') ''a\<newline>foo\<newline>b\<newline>bar\<newline>'' (Some (Str ''class'')) None = None"
    by blast
  from th2 e u n2 have 2: "find_line_in_code sample_unparse literal_match (Str ''x'') ''x = 1'' (Some (Str ''class'')) None = Inr None"
    by blast
  from th1 e h have 3: "find_line_number literal_match (Str ''a'') ''a\<newline>foo\<newline>b\<newline>bar\<newline>'' (Some (Str ''foo'')) None = None"
    by blast
  from n have n': "list_all (\<lambda>l. \<not> literal_match (Str ''class'') l) (split_nl ''a\<newline>foo\<newline>b\<newline>bar\<newline>'')"
    by (simp only: list_all_iff)
  from e n' 1 b u 2 3 show ?thesis by blast
qed

section \<open>No match\<close>

text \<open>
  Claim C7. When no line that the scan reaches with the gate armed, that is not skipped
  and that does not match trigger_start, matches the needle, \<open>find_line_number\<close> returns
  \<open>None\<close>, and \<open>find_line_in_code\<close> on code that parses returns \<open>None\<close> as a value, not an
  error. In particular this holds when no line at all matches the needle.
\<close>

theorem no_match_gives_none:
  "((\<forall>pre l post. split_nl contents = pre @ l # post
        \<and> gate_after (number_body m nd ts te) (magnet_init ts) (enumerate 1 pre) = Some True
        \<and> strip l \<noteq> [] \<and> \<not> supplied_and_matches m ts l \<longrightarrow> \<not> m nd l)
      \<longrightarrow> find_line_number m nd contents ts te = None)
   \<and> (unparse_parse code = Inr text
       \<and> (\<forall>pre l post. split_nl text = pre @ l # post
        \<and> gate_after (code_body m nd ts te) (magnet_init ts) pre = Some True
        \<and> not_quoted l \<and> \<not> supplied_and_matches m ts l \<longrightarrow> \<not> m nd l)
      \<longrightarrow> find_line_in_code unparse_parse m nd code ts te = Inr None)
   \<and> ((\<forall>l \<in> set (split_nl contents). \<not> m nd l)
      \<longrightarrow> find_line_number m nd contents ts te = None)
   \<and> (unparse_parse code = Inr text \<and> (\<forall>l \<in> set (split_nl text). \<not> m nd l)
      \<longrightarrow> find_line_in_code unparse_parse m nd code ts te = Inr None)"
proof -
  have number: "find_line_number m nd contents ts te = None"
    if h: "\<And>pre l post. split_nl contents = pre @ l # post \<Longrightarrow>
        gate_after (number_body m nd ts te) (magnet_init ts) (enumerate 1 pre) = Some True \<Longrightarrow>
        strip l \<noteq> [] \<Longrightarrow> \<not> supplied_and_matches m ts l \<Longrightarrow> \<not> m nd l"
  proof (rule ccontr)
    assume "find_line_number m nd contents ts te \<noteq> None"
    then obtain n where "find_line_number m nd contents ts te = Some n" by blast
    from find_line_number_Some[OF this] obtain pre l post g' where
      *: "split_nl contents = pre @ l # post"
         "gate_after (number_body m nd ts te) (magnet_init ts) (enumerate 1 pre) = Some g'"
         "number_body m nd ts te g' (n, l) = Return n" by blast
    from *(3) have r: "g'" "strip l \<noteq> []" "m nd l" "\<not> supplied_and_matches m ts l"
      by (auto dest: number_body_Return)
    with * h[of pre l post] show False by simp
  qed
  have code: "find_line_in_code unparse_parse m nd code ts te = Inr None"
    if u: "unparse_parse code = Inr text"
      and h: "\<And>pre l post. split_nl text = pre @ l # post \<Longrightarrow>
        gate_after (code_body m nd ts te) (magnet_init ts) pre = Some True \<Longrightarrow>
        not_quoted l \<Longrightarrow> \<not> supplied_and_matches m ts l \<Longrightarrow> \<not> m nd l"
  proof -
    have "for_loop (code_body m nd ts te) (magnet_init ts) (split_nl text) = None"
    proof (rule ccontr)
      assume "for_loop (code_body m nd ts te) (magnet_init ts) (split_nl text) \<noteq> None"
      then obtain r where "for_loop (code_body m nd ts te) (magnet_init ts) (split_nl text) = Some r"
        by blast
      from code_loop_Some[OF this] obtain pre l post g' where
        *: "split_nl text = pre @ l # post"
           "gate_after (code_body m nd ts te) (magnet_init ts) pre = Some g'"
           "code_body m nd ts te g' l = Return r" by blast
      from *(3) have r: "g'" "not_quoted l" "m nd l" "\<not> supplied_and_matches m ts l"
        by (auto dest: code_body_Return)
      with * h[of pre l post] show False by simp
    qed
    with u show ?thesis by (simp add: find_line_in_code_def)
  qed
  show ?thesis
  proof (intro conjI impI)
    assume "\<forall>pre l post. split_nl contents = pre @ l # post
        \<and> gate_after (number_body m nd ts te) (magnet_init ts) (enumerate 1 pre) = Some True
        \<and> strip l \<noteq> [] \<and> \<not> supplied_and_matches m ts l \<longrightarrow> \<not> m nd l"
    then show "find_line_number m nd contents ts te = None" by (intro number) blast
  next
    assume "unparse_parse code = Inr text
       \<and> (\<forall>pre l post. split_nl text = pre @ l # post
        \<and> gate_after (code_body m nd ts te) (magnet_init ts) pre = Some True
        \<and> not_quoted l \<and> \<not> supplied_and_matches m ts l \<longrightarrow> \<not> m nd l)"
    then show "find_line_in_code unparse_parse m nd code ts te = Inr None"
      by (intro code) blast+
  next
    assume a: "\<forall>l \<in> set (split_nl contents). \<not> m nd l"
    show "find_line_number m nd contents ts te = None"
    proof (rule number)
      fix pre l post assume "split_nl contents = pre @ l # post"
      then have "l \<in> set (split_nl contents)" by simp
      with a show "\<not> m nd l" by blast
    qed
  next
    assume a: "unparse_parse code = Inr text \<and> (\<forall>l \<in> set (split_nl text). \<not> m nd l)"
    show "find_line_in_code unparse_parse m nd code ts te = Inr None"
    proof (rule code)
      from a show "unparse_parse code = Inr text" by blast
    next
      fix pre l post assume "split_nl text = pre @ l # post"
      then have "l \<in> set (split_nl text)" by simp
      with a show "\<not> m nd l" by blast
    qed
  qed
qed

theorem no_match_gives_none_witness:
  "literal_match (Str ''a'') ''a''
   \<and> find_line_number literal_match (Str ''a'') ''a\<newline>foo\<newline>b\<newline>bar\<newline>'' (Some (Str ''foo'')) None = None
   \<and> sample_unparse ''x = 1'' = Inr ''\<newline>x = 1\<newline>''
   \<and> find_line_in_code sample_unparse literal_match (Str ''y'') ''x = 1'' None None = Inr None"
proof -
  let ?b = "number_body literal_match (Str ''a'') (Some (Str ''foo'')) None"
  have h: "\<forall>pre l post. split_nl ''a\<newline>foo\<newline>b\<newline>bar\<newline>'' = pre @ l # post
        \<and> gate_after ?b (magnet_init (Some (Str ''foo''))) (enumerate 1 pre) = Some True
        \<and> strip l \<noteq> [] \<and> \<not> supplied_and_matches literal_match (Some (Str ''foo'')) l
        \<longrightarrow> \<not> literal_match (Str ''a'') l"
  proof (intro allI impI)
    fix pre l post
    assume a: "split_nl ''a\<newline>foo\<newline>b\<newline>bar\<newline>'' = pre @ l # post
        \<and> gate_after ?b (magnet_init (Some (Str ''foo''))) (enumerate 1 pre) = Some True
        \<and> strip l \<noteq> [] \<and> \<not> supplied_and_matches literal_match (Some (Str ''foo'')) l"
    then have d: "[''a'', ''foo'', ''b'', ''bar'', []] = pre @ l # post" by simp
    from a have g: "gate_after ?b False (enumerate 1 pre) = Some True"
      by (simp add: magnet_init_def)
    from d have "pre = [] \<or> l \<in> {''foo'', ''b'', ''bar'', []}"
      by (auto simp add: Cons_eq_append_conv)
    then show "\<not> literal_match (Str ''a'') l"
    proof
      assume "pre = []" with g show ?thesis by simp
    next
      assume "l \<in> {''foo'', ''b'', ''bar'', []}"
      then show ?thesis by (auto simp add: literal_match_def)
    qed
  qed
  have m: "literal_match (Str ''a'') ''a''" by (simp add: literal_match_def)
  have u: "sample_unparse ''x = 1'' = Inr ''\<newline>x = 1\<newline>''" by (simp add: sample_unparse_def)
  have n: "\<forall>l \<in> set (split_nl ''\<newline>x = 1\<newline>''). \<not> literal_match (Str ''y'') l"
    by (simp add: literal_match_def)
  note th = no_match_gives_none[of "''a\<newline>foo\<newline>b\<newline>bar\<newline>''" literal_match "Str ''a''" "Some (Str ''foo'')" None]
  note th2 = no_match_gives_none[of "[]" literal_match "Str ''y''" None None sample_unparse "''x = 1''" "''\<newline>x = 1\<newline>''"]
  from th h have 1: "find_line_number literal_match (Str ''a'') ''a\<newline>foo\<newline>b\<newline>bar\<newline>'' (Some (Str ''foo'')) None = None"
    by blast
  from th2 u n have 2: "find_line_in_code sample_unparse literal_match (Str ''y'') ''x = 1'' None None = Inr None"
    by blast
  from m 1 u 2 show ?thesis by blast
qed

section \<open>The stop trigger after the gate is armed\<close>

text \<open>
  Claim C3, as stated, at two inputs. With trigger_start "class" and trigger_stop
  "class Z", the line "class Z" comes after the gate is armed and before any match of the
  needle, and it matches trigger_stop; it also matches trigger_start, so the body goes on
  to the next line and line 3 is returned. With no trigger_start and trigger_stop " ", the
  line " " matches trigger_stop but is blank, so it is skipped and line 2 is returned.
\<close>

theorem stop_after_armed_counterexample:
  "split_nl ''class X\<newline>class Z\<newline>def y'' = [''class X''] @ ''class Z'' # [''def y'']
   \<and> gate_after
        (number_body literal_match (Str ''def y'') (Some (Str ''class'')) (Some (Str ''class Z'')))
        (magnet_init (Some (Str ''class''))) (enumerate 1 [''class X'']) = Some True
   \<and> literal_match (Str ''class Z'') ''class Z''
   \<and> \<not> literal_match (Str ''def y'') ''class X''
   \<and> \<not> literal_match (Str ''def y'') ''class Z''
   \<and> find_line_number literal_match (Str ''def y'') ''class X\<newline>class Z\<newline>def y''
        (Some (Str ''class'')) (Some (Str ''class Z'')) = Some 3
   \<and> split_nl '' \<newline>x'' = [] @ '' '' # [''x'']
   \<and> magnet_init None
   \<and> literal_match (Str '' '') '' ''
   \<and> \<not> literal_match (Str ''x'') '' ''
   \<and> find_line_number literal_match (Str ''x'') '' \<newline>x'' None (Some (Str '' '')) = Some 2"
  by (simp add: find_line_number_def number_body_def enumerate_eq_zip magnet_init_def
      literal_match_def strip_def lstrip_def rstrip_def isspace_def supplied_and_matches_def)

text \<open>
  Claim C3, amended. When the scan reaches, with the gate armed, a line that is not
  skipped, that matches the supplied trigger_stop and that matches neither trigger_start
  nor the needle, the result is \<open>None\<close>, whatever the lines after it are (for
  \<open>find_line_in_code\<close>: on code that parses, for the lines of the normalised text).
\<close>

theorem armed_stop_gives_none:
  "(split_nl contents = pre @ l # post
      \<and> gate_after (number_body m nd ts (Some q)) (magnet_init ts) (enumerate 1 pre) = Some True
      \<and> strip l \<noteq> [] \<and> \<not> supplied_and_matches m ts l \<and> \<not> m nd l \<and> m q l
      \<longrightarrow> find_line_number m nd contents ts (Some q) = None)
   \<and> (unparse_parse code = Inr text \<and> split_nl text = pre @ l # post
      \<and> gate_after (code_body m nd ts (Some q)) (magnet_init ts) pre = Some True
      \<and> not_quoted l \<and> \<not> supplied_and_matches m ts l \<and> \<not> m nd l \<and> m q l
      \<longrightarrow> find_line_in_code unparse_parse m nd code ts (Some q) = Inr None)"
proof (intro conjI impI)
  assume a: "split_nl contents = pre @ l # post
      \<and> gate_after (number_body m nd ts (Some q)) (magnet_init ts) (enumerate 1 pre) = Some True
      \<and> strip l \<noteq> [] \<and> \<not> supplied_and_matches m ts l \<and> \<not> m nd l \<and> m q l"
  let ?b = "number_body m nd ts (Some q)"
  from a have b: "?b True (1 + length pre, l) = Break"
    by (simp add: number_body_def supplied_and_matches_def)
  from a have g: "gate_after ?b (magnet_init ts) (enumerate 1 pre) = Some True" by blast
  have "for_loop ?b (magnet_init ts) (enumerate 1 (pre @ l # post)) = None"
    by (simp only: enumerate_decomp for_loop_Break[OF g b])
  with a show "find_line_number m nd contents ts (Some q) = None"
    by (simp add: find_line_number_def)
next
  assume a: "unparse_parse code = Inr text \<and> split_nl text = pre @ l # post
      \<and> gate_after (code_body m nd ts (Some q)) (magnet_init ts) pre = Some True
      \<and> not_quoted l \<and> \<not> supplied_and_matches m ts l \<and> \<not> m nd l \<and> m q l"
  let ?b = "code_body m nd ts (Some q)"
  from a have b: "?b True l = Break"
    by (simp add: code_body_def supplied_and_matches_def)
  from a have g: "gate_after ?b (magnet_init ts) pre = Some True" by blast
  have "for_loop ?b (magnet_init ts) (pre @ l # post) = None"
    by (rule for_loop_Break[OF g b])
  with a show "find_line_in_code unparse_parse m nd code ts (Some q) = Inr None"
    by (auto simp add: find_line_in_code_def)
qed

theorem armed_stop_gives_none_witness:
  "split_nl ''class X:\<newline>    x = 1\<newline>class Z:\<newline>    def y''
      = [''class X:'', ''    x = 1''] @ ''class Z:'' # [''    def y'']
   \<and> gate_after
        (number_body literal_match (Str ''    def y'') (Some (Str ''class X'')) (Some (Str ''class '')))
        (magnet_init (Some (Str ''class X''))) (enumerate 1 [''class X:'', ''    x = 1'']) = Some True
   \<and> strip ''class Z:'' \<noteq> []
   \<and> \<not> supplied_and_matches literal_match (Some (Str ''class X'')) ''class Z:''
   \<and> \<not> literal_match (Str ''    def y'') ''class Z:''
   \<and> literal_match (Str ''class '') ''class Z:''
   \<and> literal_match (Str ''    def y'') ''    def y''
   \<and> find_line_number literal_match (Str ''    def y'')
        ''class X:\<newline>    x = 1\<newline>class Z:\<newline>    def y''
        (Some (Str ''class X'')) (Some (Str ''class '')) = None"
proof -
  let ?b = "number_body literal_match (Str ''    def y'') (Some (Str ''class X'')) (Some (Str ''class ''))"
  have s: "split_nl ''class X:\<newline>    x = 1\<newline>class Z:\<newline>    def y''
      = [''class X:'', ''    x = 1''] @ ''class Z:'' # [''    def y'']" by simp
  have g: "gate_after ?b (magnet_init (Some (Str ''class X'')))
      (enumerate 1 [''class X:'', ''    x = 1'']) = Some True"
    by (simp add: number_body_def enumerate_eq_zip magnet_init_def
      literal_match_def strip_def lstrip_def rstrip_def isspace_def supplied_and_matches_def)
  have e: "strip ''class Z:'' \<noteq> []"
    by (simp add: strip_def lstrip_def rstrip_def isspace_def)
  have t: "\<not> supplied_and_matches literal_match (Some (Str ''class X'')) ''class Z:''"
    by (simp add: supplied_and_matches_def literal_match_def)
  have n: "\<not> literal_match (Str ''    def y'') ''class Z:''" by (simp add: literal_match_def)
  have q: "literal_match (Str ''class '') ''class Z:''" by (simp add: literal_match_def)
  have later: "literal_match (Str ''    def y'') ''    def y''" by (simp add: literal_match_def)
  note th = armed_stop_gives_none[of "''class X:\<newline>    x = 1\<newline>class Z:\<newline>    def y''"
      "[''class X:'', ''    x = 1'']" "''class Z:''" "[''    def y'']" literal_match
      "Str ''    def y''" "Some (Str ''class X'')" "Str ''class ''"]
  from th s g e t n q have "find_line_number literal_match (Str ''    def y'')
        ''class X:\<newline>    x = 1\<newline>class Z:\<newline>    def y''
        (Some (Str ''class X'')) (Some (Str ''class '')) = None" by blast
  with s g e t n q later show ?thesis by blast
qed

section \<open>A line matching both the needle and trigger_stop\<close>

text \<open>
  Claim C10, as stated, at the text of the single line of two spaces, with needle " ",
  trigger_stop " " and no trigger_start: the gate is armed and the line matches both the
  needle and trigger_stop, but the line is blank and is skipped, so the result is \<open>None\<close>.
\<close>

theorem same_line_priority_counterexample:
  "split_nl ''  '' = [] @ ''  '' # []
   \<and> magnet_init None
   \<and> literal_match (Str '' '') ''  ''
   \<and> supplied_and_matches literal_match (Some (Str '' '')) ''  ''
   \<and> \<not> supplied_and_matches literal_match None ''  ''
   \<and> find_line_number literal_match (Str '' '') ''  '' None (Some (Str '' '')) = None"
  by (simp add: find_line_number_def number_body_def enumerate_eq_zip magnet_init_def
      literal_match_def strip_def lstrip_def rstrip_def isspace_def supplied_and_matches_def)

text \<open>
  Claim C10, amended. When the scan reaches, with the gate armed, a line that is not
  skipped, that does not match trigger_start and that matches both the needle and
  trigger_stop, the body returns on that line: \<open>find_line_number\<close> returns its 1-based
  number and \<open>find_line_in_code\<close> returns its stripped text.
\<close>

theorem needle_before_stop_on_same_line:
  "(split_nl contents = pre @ l # post
      \<and> gate_after (number_body m nd ts te) (magnet_init ts) (enumerate 1 pre) = Some True
      \<and> strip l \<noteq> [] \<and> \<not> supplied_and_matches m ts l \<and> m nd l \<and> supplied_and_matches m te l
      \<longrightarrow> number_body m nd ts te True (Suc (length pre), l) = Return (Suc (length pre))
        \<and> find_line_number m nd contents ts te = Some (Suc (length pre)))
   \<and> (unparse_parse code = Inr text \<and> split_nl text = pre @ l # post
      \<and> gate_after (code_body m nd ts te) (magnet_init ts) pre = Some True
      \<and> not_quoted l \<and> \<not> supplied_and_matches m ts l \<and> m nd l \<and> supplied_and_matches m te l
      \<longrightarrow> code_body m nd ts te True l = Return (strip l)
        \<and> find_line_in_code unparse_parse m nd code ts te = Inr (Some (strip l)))"
proof (intro conjI impI)
  assume a: "split_nl contents = pre @ l # post
      \<and> gate_after (number_body m nd ts te) (magnet_init ts) (enumerate 1 pre) = Some True
      \<and> strip l \<noteq> [] \<and> \<not> supplied_and_matches m ts l \<and> m nd l \<and> supplied_and_matches m te l"
  let ?b = "number_body m nd ts te"
  from a have b: "?b True (1 + length pre, l) = Return (Suc (length pre))"
    by (simp add: number_body_def)
  then show "?b True (Suc (length pre), l) = Return (Suc (length pre))" by simp
  from a have g: "gate_after ?b (magnet_init ts) (enumerate 1 pre) = Some True" by blast
  have "for_loop ?b (magnet_init ts) (enumerate 1 (pre @ l # post)) = Some (Suc (length pre))"
    by (simp only: enumerate_decomp for_loop_Return[OF g b])
  with a show "find_line_number m nd contents ts te = Some (Suc (length pre))"
    by (simp add: find_line_number_def)
next
  assume a: "unparse_parse code = Inr text \<and> split_nl text = pre @ l # post
      \<and> gate_after (code_body m nd ts te) (magnet_init ts) pre = Some True
      \<and> not_quoted l \<and> \<not> supplied_and_matches m ts l \<and> m nd l \<and> supplied_and_matches m te l"
  let ?b = "code_body m nd ts te"
  from a show b: "?b True l = Return (strip l)"
    by (simp add: code_body_def)
  from a have g: "gate_after ?b (magnet_init ts) pre = Some True" by blast
  have "for_loop ?b (magnet_init ts) (pre @ l # post) = Some (strip l)"
    by (rule for_loop_Return[OF g b])
  with a show "find_line_in_code unparse_parse m nd code ts te = Inr (Some (strip l))"
    by (auto simp add: find_line_in_code_def)
qed

theorem needle_before_stop_on_same_line_witness:
  "split_nl ''class X:\<newline>class Z:'' = [''class X:''] @ ''class Z:'' # []
   \<and> gate_after
        (number_body literal_match (Str ''class Z'') (Some (Str ''class X'')) (Some (Str ''class '')))
        (magnet_init (Some (Str ''class X''))) (enumerate 1 [''class X:'']) = Some True
   \<and> strip ''class Z:'' \<noteq> []
   \<and> \<not> supplied_and_matches literal_match (Some (Str ''class X'')) ''class Z:''
   \<and> literal_match (Str ''class Z'') ''class Z:''
   \<and> supplied_and_matches literal_match (Some (Str ''class '')) ''class Z:''
   \<and> find_line_number literal_match (Str ''class Z'') ''class X:\<newline>class Z:''
        (Some (Str ''class X'')) (Some (Str ''class '')) = Some 2"
proof -
  let ?b = "number_body literal_match (Str ''class Z'') (Some (Str ''class X'')) (Some (Str ''class ''))"
  have s: "split_nl ''class X:\<newline>class Z:'' = [''class X:''] @ ''class Z:'' # []" by simp
  have g: "gate_after ?b (magnet_init (Some (Str ''class X''))) (enumerate 1 [''class X:'']) = Some True"
    by (simp add: number_body_def enumerate_eq_zip magnet_init_def
      literal_match_def strip_def lstrip_def rstrip_def isspace_def supplied_and_matches_def)
  have e: "strip ''class Z:'' \<noteq> []"
    by (simp add: strip_def lstrip_def rstrip_def isspace_def)
  have t: "\<not> supplied_and_matches literal_match (Some (Str ''class X'')) ''class Z:''"
    by (simp add: supplied_and_matches_def literal_match_def)
  have n: "literal_match (Str ''class Z'') ''class Z:''" by (simp add: literal_match_def)
  have q: "supplied_and_matches literal_match (Some (Str ''class '')) ''class Z:''"
    by (simp add: supplied_and_matches_def literal_match_def)
  note th = needle_before_stop_on_same_line[of "''class X:\<newline>class Z:''" "[''class X:'']"
      "''class Z:''" "[]" literal_match "Str ''class Z''" "Some (Str ''class X'')" "Some (Str ''class '')"]
  from th s g e t n q have "find_line_number literal_match (Str ''class Z'') ''class X:\<newline>class Z:''
        (Some (Str ''class X'')) (Some (Str ''class '')) = Some (Suc (length [''class X:'']))"
    by blast
  then have "find_line_number literal_match (Str ''class Z'') ''class X:\<newline>class Z:''
        (Some (Str ''class X'')) (Some (Str ''class '')) = Some 2" by simp
  with s g e t n q show ?thesis by blast
qed

section \<open>The text returned by find_line_in_code\<close>

lemma rstrip_prefix: "prefix (rstrip s) s"
proof -
  have "rev s = takeWhile isspace (rev s) @ dropWhile isspace (rev s)" by simp
  then have "s = rev (dropWhile isspace (rev s)) @ rev (takeWhile isspace (rev s))"
    by (metis rev_append rev_rev_ident)
  then show ?thesis unfolding rstrip_def by (metis prefixI)
qed

lemma rstrip_last: "rstrip s \<noteq> [] \<Longrightarrow> \<not> isspace (last (rstrip s))"
  unfolding rstrip_def by (simp add: last_rev hd_dropWhile)

lemma lstrip_hd: "lstrip s \<noteq> [] \<Longrightarrow> \<not> isspace (hd (lstrip s))"
  unfolding lstrip_def by (simp add: hd_dropWhile)

lemma strip_hd_eq: "strip s \<noteq> [] \<Longrightarrow> hd (strip s) = hd (lstrip s)"
proof -
  assume n: "strip s \<noteq> []"
  from rstrip_prefix[of "lstrip s"] obtain zs where "lstrip s = strip s @ zs"
    unfolding strip_def by (auto simp add: prefix_def)
  with n show ?thesis by (metis hd_append2)
qed

lemma strip_no_leading: "strip s \<noteq> [] \<Longrightarrow> \<not> isspace (hd (strip s))"
proof -
  assume n: "strip s \<noteq> []"
  then have "lstrip s \<noteq> []" by (auto simp add: strip_def rstrip_def)
  with n show ?thesis by (simp add: strip_hd_eq lstrip_hd)
qed

lemma strip_no_trailing: "strip s \<noteq> [] \<Longrightarrow> \<not> isspace (last (strip s))"
  unfolding strip_def by (rule rstrip_last)

lemma take1_strip:
  "take 1 (strip s) = (if strip s = [] then [] else take 1 (lstrip s))"
proof (cases "strip s = []")
  case True then show ?thesis by simp
next
  case False
  then have l: "lstrip s \<noteq> []" by (auto simp add: strip_def rstrip_def)
  from False have "hd (strip s) = hd (lstrip s)" by (rule strip_hd_eq)
  with False l show ?thesis by (cases "strip s"; cases "lstrip s") simp_all
qed

lemma not_quoted_strip:
  "not_quoted line \<Longrightarrow> take 1 (strip line) \<noteq> [CHR 0x27] \<and> take 1 (strip line) \<noteq> [CHR 0x22]"
  using take1_strip[of line] by (auto simp add: not_quoted_def split: if_splits)

text \<open>
  Claim C9. Every text returned by \<open>find_line_in_code\<close> is empty or begins and ends with a
  character that is not white space, and does not begin with a single or a double quote:
  it is the stripped form of a line of the normalised text that matches the needle and
  whose first character after the leading white space is not a quote. On a line whose
  first character after the leading white space is a quote the body goes on to the next
  line with the gate unchanged.
\<close>

theorem result_is_stripped_and_unquoted:
  "(find_line_in_code unparse_parse m nd code ts te = Inr (Some r) \<longrightarrow>
      (r = [] \<or> (\<not> isspace (hd r) \<and> \<not> isspace (last r)))
      \<and> take 1 r \<noteq> [CHR 0x27] \<and> take 1 r \<noteq> [CHR 0x22]
      \<and> (\<exists>text line. unparse_parse code = Inr text \<and> line \<in> set (split_nl text)
            \<and> not_quoted line \<and> m nd line \<and> r = strip line))
   \<and> (\<not> not_quoted line \<longrightarrow> code_body m nd ts te g line = Continue g)"
proof (intro conjI impI)
  assume a: "find_line_in_code unparse_parse m nd code ts te = Inr (Some r)"
  then obtain tx where u: "unparse_parse code = Inr tx"
    and f: "for_loop (code_body m nd ts te) (magnet_init ts) (split_nl tx) = Some r"
    by (auto simp add: find_line_in_code_def split: sum.splits)
  from code_loop_Some[OF f] obtain pre l post g' where
    *: "split_nl tx = pre @ l # post" "code_body m nd ts te g' l = Return r" by blast
  from *(2) have r: "r = strip l" "not_quoted l" "m nd l" by (auto dest: code_body_Return)
  from *(1) have "l \<in> set (split_nl tx)" by simp
  with u r show "\<exists>text line. unparse_parse code = Inr text \<and> line \<in> set (split_nl text)
            \<and> not_quoted line \<and> m nd line \<and> r = strip line" by blast
  from r show "r = [] \<or> (\<not> isspace (hd r) \<and> \<not> isspace (last r))"
    using strip_no_leading[of l] strip_no_trailing[of l] by blast
  from r show "take 1 r \<noteq> [CHR 0x27]" "take 1 r \<noteq> [CHR 0x22]"
    using not_quoted_strip[of l] by simp_all
next
  assume "\<not> not_quoted line"
  then show "code_body m nd ts te g line = Continue g" by (simp add: code_body_def)
qed

theorem result_is_stripped_and_unquoted_witness:
  "sample_unparse ''if x:\<newline>    y = 1'' = Inr ''\<newline>if x:\<newline>    y = 1\<newline>''
   \<and> find_line_in_code sample_unparse literal_match (Str ''    y'') ''if x:\<newline>    y = 1'' None None
       = Inr (Some ''y = 1'')
   \<and> \<not> isspace (hd ''y = 1'') \<and> \<not> isspace (last ''y = 1'')
   \<and> take 1 ''y = 1'' \<noteq> [CHR 0x27] \<and> take 1 ''y = 1'' \<noteq> [CHR 0x22]
   \<and> \<not> not_quoted (''    '' @ [CHR 0x27] @ ''doc'' @ [CHR 0x27])
   \<and> code_body literal_match (Str ''    y'') None None True (''    '' @ [CHR 0x27] @ ''doc'' @ [CHR 0x27])
       = Continue True"
proof -
  have u: "sample_unparse ''if x:\<newline>    y = 1'' = Inr ''\<newline>if x:\<newline>    y = 1\<newline>''"
    by (simp add: sample_unparse_def)
  have e: "find_line_in_code sample_unparse literal_match (Str ''    y'') ''if x:\<newline>    y = 1'' None None
       = Inr (Some ''y = 1'')"
    by (simp add: find_line_in_code_def sample_unparse_def code_body_def magnet_init_def
      literal_match_def not_quoted_def strip_def lstrip_def rstrip_def isspace_def
      supplied_and_matches_def)
  have q: "\<not> not_quoted (''    '' @ [CHR 0x27] @ ''doc'' @ [CHR 0x27])"
    by (simp add: not_quoted_def lstrip_def isspace_def)
  note th = result_is_stripped_and_unquoted[of sample_unparse literal_match "Str ''    y''"
      "''if x:\<newline>    y = 1''" None None "''y = 1''"
      "''    '' @ [CHR 0x27] @ ''doc'' @ [CHR 0x27]" True]
  from th e have 1: "\<not> isspace (hd ''y = 1'') \<and> \<not> isspace (last ''y = 1'')
      \<and> take 1 ''y = 1'' \<noteq> [CHR 0x27] \<and> take 1 ''y = 1'' \<noteq> [CHR 0x22]"
    by auto
  from th q have 2: "code_body literal_match (Str ''    y'') None None True
      (''    '' @ [CHR 0x27] @ ''doc'' @ [CHR 0x27]) = Continue True"
    by blast
  from u e 1 q 2 show ?thesis by blast
qed

end
